theory Spec2Isabelle
  imports Main "HOL-Library.Char_ord" "HOL-Library.List_Lexorder"
begin

section \<open>Calendar dates\<close>

text \<open>
  The payload fields \<open>start_date\<close> and \<open>end_date\<close> of \<open>schemas.Booking\<close> are values of
  Python's \<open>datetime.date\<close>: a year, a month and a day. The functions below follow the
  pure-Python \<open>datetime\<close> module, which is what \<open>create_booking\<close> calls when it compares
  two dates (\<open><\<close>), subtracts them (\<open>.days\<close>) and serialises them (\<open>isoformat\<close>).
\<close>

record date =
  year :: int
  month :: int
  day :: int

definition is_leap :: "int \<Rightarrow> bool" where
  "is_leap y = (y mod 4 = 0 \<and> (y mod 100 \<noteq> 0 \<or> y mod 400 = 0))"

definition days_before_year :: "int \<Rightarrow> int" where
  "days_before_year y = (let y' = y - 1 in y' * 365 + y' div 4 - y' div 100 + y' div 400)"

definition DAYS_IN_MONTH :: "int list" where
  "DAYS_IN_MONTH = [-1, 31, 28, 31, 30, 31, 30, 31, 31, 30, 31, 30, 31]"

definition DAYS_BEFORE_MONTH :: "int list" where
  "DAYS_BEFORE_MONTH = [-1, 0, 31, 59, 90, 120, 151, 181, 212, 243, 273, 304, 334]"

definition days_in_month :: "int \<Rightarrow> int \<Rightarrow> int" where
  "days_in_month y m = (if m = 2 \<and> is_leap y then 29 else DAYS_IN_MONTH ! nat m)"

definition days_before_month :: "int \<Rightarrow> int \<Rightarrow> int" where
  "days_before_month y m =
     DAYS_BEFORE_MONTH ! nat m + (if m > 2 \<and> is_leap y then 1 else 0)"

definition ymd2ord :: "int \<Rightarrow> int \<Rightarrow> int \<Rightarrow> int" where
  "ymd2ord y m d = days_before_year y + days_before_month y m + d"

definition toordinal :: "date \<Rightarrow> int" where
  "toordinal d = ymd2ord (year d) (month d) (day d)"

text \<open>
  A \<open>date\<close> object exists only if its fields passed the constructor's check
  (\<open>MINYEAR = 1\<close>, \<open>MAXYEAR = 9999\<close>); the request parser builds the two dates of a
  payload through that constructor. The two month tables above are read at the month of
  such an object only, an index from 1 to 12.
\<close>

definition valid_date :: "date \<Rightarrow> bool" where
  "valid_date d =
     (1 \<le> year d \<and> year d \<le> 9999 \<and> 1 \<le> month d \<and> month d \<le> 12 \<and>
      1 \<le> day d \<and> day d \<le> days_in_month (year d) (month d))"

text \<open>Comparison of two dates is the comparison of the triples (year, month, day).\<close>

definition date_less :: "date \<Rightarrow> date \<Rightarrow> bool" where
  "date_less a b =
     (year a < year b \<or>
      (year a = year b \<and> (month a < month b \<or> (month a = month b \<and> day a < day b))))"

definition date_le :: "date \<Rightarrow> date \<Rightarrow> bool" where
  "date_le a b = (date_less a b \<or> (year a = year b \<and> month a = month b \<and> day a = day b))"

text \<open>\<open>(a - b).days\<close>: the difference of the ordinals.\<close>

definition days_between :: "date \<Rightarrow> date \<Rightarrow> int" where
  "days_between a b = toordinal a - toordinal b"

subsection \<open>Serialisation\<close>

text \<open>
  \<open>isoformat\<close> is \<open>"%04d-%02d-%02d" % (year, month, day)\<close>: each field in decimal,
  padded with zeros on the left up to the width.
\<close>

definition digit_char :: "nat \<Rightarrow> char" where
  "digit_char n = ''0123456789'' ! n"

fun dec :: "nat \<Rightarrow> string" where
  "dec n = (if n < 10 then [digit_char n] else dec (n div 10) @ [digit_char (n mod 10)])"

declare dec.simps [simp del]

definition zero_pad :: "nat \<Rightarrow> int \<Rightarrow> string" where
  "zero_pad w n =
     (if n < 0
      then CHR ''-'' # replicate (w - 1 - length (dec (nat (- n)))) CHR ''0'' @ dec (nat (- n))
      else replicate (w - length (dec (nat n))) CHR ''0'' @ dec (nat n))"

definition isoformat :: "date \<Rightarrow> string" where
  "isoformat d = zero_pad 4 (year d) @ ''-'' @ zero_pad 2 (month d) @ ''-'' @ zero_pad 2 (day d)"

section \<open>Object identifiers\<close>

text \<open>
  \<open>bson.ObjectId\<close>: the constructor accepts a string of length 24 that \<open>bytes.fromhex\<close>
  decodes and raises \<open>InvalidId\<close> otherwise; \<open>ObjectId.is_valid\<close> is false on an empty
  value and otherwise tries the constructor. \<open>bytes.fromhex\<close> reads two hexadecimal
  digits per byte and skips ASCII whitespace between bytes.
\<close>

type_synonym objectid = "nat list"

definition hexval :: "char \<Rightarrow> nat option" where
  "hexval c =
     (let n = (of_char c :: nat) in
      if 48 \<le> n \<and> n \<le> 57 then Some (n - 48)
      else if 97 \<le> n \<and> n \<le> 102 then Some (n - 87)
      else if 65 \<le> n \<and> n \<le> 70 then Some (n - 55)
      else None)"

definition is_space :: "char \<Rightarrow> bool" where
  "is_space c = (let n = (of_char c :: nat) in n = 32 \<or> (9 \<le> n \<and> n \<le> 13))"

fun fromhex :: "string \<Rightarrow> nat list option" where
  "fromhex [] = Some []"
| "fromhex [c] = (if is_space c then Some [] else None)"
| "fromhex (c # d # cs) =
     (if is_space c then fromhex (d # cs)
      else case (hexval c, hexval d) of
             (Some a, Some b) \<Rightarrow> map_option ((#) (16 * a + b)) (fromhex cs)
           | _ \<Rightarrow> None)"

datatype error =
  HTTPException nat string
  | InvalidId

abbreviation InvalidRange :: error where
  "InvalidRange \<equiv> HTTPException 400 ''End date cannot be before start date''"

abbreviation RentalTooLong :: error where
  "RentalTooLong \<equiv> HTTPException 400 ''Max rental length is 30 days''"

abbreviation CarNotFound :: error where
  "CarNotFound \<equiv> HTTPException 404 ''Car not found''"

abbreviation DateConflict :: error where
  "DateConflict \<equiv>
     HTTPException 409 ''Selected dates overlap with an existing booking for this car''"

definition ObjectId :: "string \<Rightarrow> error + objectid" where
  "ObjectId oid =
     (if length oid = 24
      then (case fromhex oid of Some bs \<Rightarrow> Inr bs | None \<Rightarrow> Inl InvalidId)
      else Inl InvalidId)"

definition is_valid :: "string \<Rightarrow> bool" where
  "is_valid oid =
     (if oid = [] then False
      else (case ObjectId oid of Inr _ \<Rightarrow> True | Inl _ \<Rightarrow> False))"

section \<open>The document store\<close>

text \<open>
  The request body (\<open>schemas.Booking\<close>) and the two collections the endpoint touches.
  A car document is read only through its \<open>_id\<close>; its other attributes are carried as
  a value of an arbitrary type. A booking document is the dictionary that
  \<open>create_booking\<close> builds: the dumped payload with both dates replaced by strings.
\<close>

record booking =
  car_id :: string
  customer_name :: string
  customer_email :: string
  customer_phone :: "string option"
  start_date :: date
  end_date :: date

record 'c car_doc =
  car_oid :: objectid
  car_attrs :: 'c

record booking_data =
  data_car_id :: string
  data_customer_name :: string
  data_customer_email :: string
  data_customer_phone :: "string option"
  data_start_date :: string
  data_end_date :: string

record booking_doc = booking_data +
  doc_id :: nat

record 'c store =
  cars :: "'c car_doc list"
  bookings :: "booking_doc list"
  next_id :: nat

text \<open>
  Modelled from the spec: the module \<open>database\<close>, which provides the handle \<open>db\<close>, is
  not among the sources. The spec's store offers \<open>find_one(collection, filter) ->
  optional document\<close>. Here a collection is the list of its documents in insertion
  order and \<open>find_one\<close> returns the first document that satisfies the filter, none
  when no document does.
\<close>

definition find_one :: "'a list \<Rightarrow> ('a \<Rightarrow> bool) \<Rightarrow> 'a option" where
  "find_one coll flt = List.find flt coll"

text \<open>
  Modelled from the spec: \<open>database.create_document\<close> is not among the sources. The
  spec's store offers \<open>insert(collection, document) -> generated identifier\<close>, the
  identifier being opaque, assigned by the store and unique to the persisted booking.
  Here the store draws identifiers from a counter, and the insert appends the document,
  under its identifier, to the booking collection.
\<close>

definition create_document :: "'c store \<Rightarrow> booking_data \<Rightarrow> nat \<times> 'c store" where
  "create_document db data =
     (let inserted_id = next_id db;
          doc = booking_data.extend data (booking_doc.fields inserted_id)
      in (inserted_id,
          db\<lparr>bookings := bookings db @ [doc], next_id := Suc inserted_id\<rparr>))"

section \<open>Booking admission\<close>

text \<open>\<open>payload.model_dump()\<close> followed by the two assignments of the serialised dates.\<close>

definition model_dump :: "booking \<Rightarrow> string \<Rightarrow> string \<Rightarrow> booking_data" where
  "model_dump payload new_start new_end =
     \<lparr>data_car_id = car_id payload,
      data_customer_name = customer_name payload,
      data_customer_email = customer_email payload,
      data_customer_phone = customer_phone payload,
      data_start_date = new_start,
      data_end_date = new_end\<rparr>"

text \<open>
  The car lookup of \<open>create_booking\<close>: the conditional expression parses the identifier
  only in its true branch.
\<close>

definition find_car :: "'c store \<Rightarrow> string \<Rightarrow> error + 'c car_doc option" where
  "find_car db cid =
     (if is_valid cid
      then (case ObjectId cid of
              Inl e \<Rightarrow> Inl e
            | Inr oid \<Rightarrow> Inr (find_one (cars db) (\<lambda>c. car_oid c = oid)))
      else Inr None)"

text \<open>
  The filter of the overlap query, on a stored booking document. The store compares the
  two date fields as strings.
\<close>

definition overlap_filter :: "string \<Rightarrow> string \<Rightarrow> string \<Rightarrow> booking_doc \<Rightarrow> bool" where
  "overlap_filter cid new_start new_end b =
     (data_car_id b = cid \<and> data_start_date b \<le> new_end \<and> data_end_date b \<ge> new_start)"

text \<open>
  The endpoint. Raising an \<open>HTTPException\<close> is an \<open>Inl\<close> result beside the untouched
  store. A document that \<open>find_one\<close> returns carries an \<open>_id\<close>, so it is a non-empty
  dictionary and the tests \<open>not car\<close> and \<open>overlap\<close> only ask whether one was found.
\<close>

definition create_booking :: "'c store \<Rightarrow> booking \<Rightarrow> (error + nat) \<times> 'c store" where
  "create_booking db payload =
     (if date_less (end_date payload) (start_date payload) then (Inl InvalidRange, db)
      else
        let delta = days_between (end_date payload) (start_date payload) + 1 in
        if delta > 31 then (Inl RentalTooLong, db)
        else
          (case find_car db (car_id payload) of
             Inl e \<Rightarrow> (Inl e, db)
           | Inr None \<Rightarrow> (Inl CarNotFound, db)
           | Inr (Some car) \<Rightarrow>
               let new_start = isoformat (start_date payload);
                   new_end = isoformat (end_date payload);
                   overlap = find_one (bookings db)
                               (overlap_filter (car_id payload) new_start new_end)
               in (case overlap of
                     Some b \<Rightarrow> (Inl DateConflict, db)
                   | None \<Rightarrow>
                       let data = model_dump payload new_start new_end;
                           (inserted_id, db') = create_document db data
                       in (Inr inserted_id, db'))))"

section \<open>Notions used to state the properties\<close>

text \<open>The inclusive day count of a candidate, the \<open>delta\<close> of the length check.\<close>

definition inclusive_span :: "booking \<Rightarrow> int" where
  "inclusive_span p = days_between (end_date p) (start_date p) + 1"

definition valid_booking :: "booking \<Rightarrow> bool" where
  "valid_booking p = (valid_date (start_date p) \<and> valid_date (end_date p))"

text \<open>
  A car identifier resolves when it parses as an object identifier and a car document
  carries that identifier.
\<close>

definition resolves :: "'c store \<Rightarrow> string \<Rightarrow> bool" where
  "resolves db cid =
     (case ObjectId cid of
        Inl _ \<Rightarrow> False
      | Inr oid \<Rightarrow> (\<exists>c \<in> set (cars db). car_oid c = oid))"

text \<open>The document that a successful admission of \<open>p\<close> stores under the identifier \<open>i\<close>.\<close>

definition serialise :: "nat \<Rightarrow> booking \<Rightarrow> booking_doc" where
  "serialise i p =
     \<lparr>data_car_id = car_id p,
      data_customer_name = customer_name p,
      data_customer_email = customer_email p,
      data_customer_phone = customer_phone p,
      data_start_date = isoformat (start_date p),
      data_end_date = isoformat (end_date p),
      doc_id = i\<rparr>"

definition store_after :: "'c store \<Rightarrow> booking \<Rightarrow> 'c store" where
  "store_after db p =
     db\<lparr>bookings := bookings db @ [serialise (next_id db) p], next_id := Suc (next_id db)\<rparr>"

text \<open>
  Some stored booking for the candidate's car identifier satisfies the two comparisons of
  the overlap query.
\<close>

definition conflicts :: "'c store \<Rightarrow> booking \<Rightarrow> bool" where
  "conflicts db p =
     (\<exists>b \<in> set (bookings db).
        data_car_id b = car_id p \<and> data_start_date b \<le> isoformat (end_date p) \<and>
        isoformat (start_date p) \<le> data_end_date b)"

text \<open>Two stored ranges overlap when each starts no later than the other ends.\<close>

definition ranges_overlap :: "booking_doc \<Rightarrow> booking_doc \<Rightarrow> bool" where
  "ranges_overlap a b =
     (data_start_date a \<le> data_end_date b \<and> data_start_date b \<le> data_end_date a)"

text \<open>The same on dates: the two inclusive intervals share a day.\<close>

definition dates_overlap :: "date \<Rightarrow> date \<Rightarrow> date \<Rightarrow> date \<Rightarrow> bool" where
  "dates_overlap s1 e1 s2 e2 = (date_le s1 e2 \<and> date_le s2 e1)"

text \<open>
  No two bookings of the collection that carry one car identifier, as it is written,
  overlap.
\<close>

fun exclusive :: "booking_doc list \<Rightarrow> bool" where
  "exclusive [] = True"
| "exclusive (b # bs) =
     ((\<forall>c \<in> set bs. data_car_id c = data_car_id b \<longrightarrow> \<not> ranges_overlap b c) \<and> exclusive bs)"

text \<open>
  The same on the dates behind the documents: any two stored documents at different
  positions that serialise valid bookings for one car identifier have date intervals
  that share no day.
\<close>

definition exclusive_dates :: "booking_doc list \<Rightarrow> bool" where
  "exclusive_dates bs =
     (\<forall>i < length bs. \<forall>j < length bs. \<forall>a b p q.
        i \<noteq> j \<and> bs ! i = serialise a p \<and> bs ! j = serialise b q \<and>
        valid_booking p \<and> valid_booking q \<and> car_id p = car_id q
        \<longrightarrow> \<not> dates_overlap (start_date p) (end_date p) (start_date q) (end_date q))"

text \<open>
  Two identifiers name the same car when they parse to the same object identifier, which
  is how the endpoint looks the car up.
\<close>

definition names_same_car :: "string \<Rightarrow> string \<Rightarrow> bool" where
  "names_same_car c1 c2 =
     (case ObjectId c1 of
        Inl _ \<Rightarrow> False
      | Inr a \<Rightarrow> (case ObjectId c2 of Inl _ \<Rightarrow> False | Inr b \<Rightarrow> a = b))"

text \<open>No two bookings of the collection for one car overlap.\<close>

fun exclusive_per_car :: "booking_doc list \<Rightarrow> bool" where
  "exclusive_per_car [] = True"
| "exclusive_per_car (b # bs) =
     ((\<forall>c \<in> set bs. names_same_car (data_car_id c) (data_car_id b) \<longrightarrow> \<not> ranges_overlap b c) \<and>
      exclusive_per_car bs)"

text \<open>A sequence of admission calls, one after the other, each on the store the last left.\<close>

fun admit_all :: "'c store \<Rightarrow> booking list \<Rightarrow> (error + nat) list \<times> 'c store" where
  "admit_all db [] = ([], db)"
| "admit_all db (p # ps) =
     (let (r, db') = create_booking db p;
          (rs, db'') = admit_all db' ps
      in (r # rs, db''))"

text \<open>The decimal digits of \<open>n\<close> in exactly \<open>w\<close> places.\<close>

fun fixw :: "nat \<Rightarrow> nat \<Rightarrow> string" where
  "fixw 0 n = []"
| "fixw (Suc k) n = fixw k (n div 10) @ [digit_char (n mod 10)]"

text \<open>The ten characters of a date written as zero-padded \<open>YYYY-MM-DD\<close>.\<close>

definition iso_text :: "date \<Rightarrow> string" where
  "iso_text d =
     (let y = nat (year d); m = nat (month d); n = nat (day d) in
      [digit_char (y div 1000 mod 10), digit_char (y div 100 mod 10),
       digit_char (y div 10 mod 10), digit_char (y mod 10), CHR ''-'',
       digit_char (m div 10 mod 10), digit_char (m mod 10), CHR ''-'',
       digit_char (n div 10 mod 10), digit_char (n mod 10)])"

subsection \<open>Sample data\<close>

definition ymd :: "int \<Rightarrow> int \<Rightarrow> int \<Rightarrow> date" where
  "ymd y m d = \<lparr>year = y, month = m, day = d\<rparr>"

definition car_C :: string where
  "car_C = ''0123456789abcdef01234567''"

definition car_D :: string where
  "car_D = ''0123456789abcdef0123456a''"

text \<open>The identifier of car C with its hexadecimal digits in upper case.\<close>

definition car_C_upper :: string where
  "car_C_upper = ''0123456789ABCDEF01234567''"

definition request :: "string \<Rightarrow> date \<Rightarrow> date \<Rightarrow> booking" where
  "request cid s e =
     \<lparr>car_id = cid, customer_name = ''Ada'', customer_email = ''ada@example.org'',
      customer_phone = None, start_date = s, end_date = e\<rparr>"

definition fleet :: "unit store" where
  "fleet =
     \<lparr>cars = [\<lparr>car_oid = [1, 35, 69, 103, 137, 171, 205, 239, 1, 35, 69, 103], car_attrs = ()\<rparr>,
              \<lparr>car_oid = [1, 35, 69, 103, 137, 171, 205, 239, 1, 35, 69, 106], car_attrs = ()\<rparr>],
      bookings = [],
      next_id = 0\<rparr>"

text \<open>The fleet after car C has been booked from 2024-06-01 to 2024-06-10.\<close>

definition fleet_booked :: "unit store" where
  "fleet_booked = store_after fleet (request car_C (ymd 2024 6 1) (ymd 2024 6 10))"

section \<open>Serialised dates order as dates do\<close>

lemma of_char_digit_char:
  assumes "n < 10"
  shows "(of_char (digit_char n) :: nat) = 48 + n"
proof -
  from assms have "n \<in> {0, 1, 2, 3, 4, 5, 6, 7, 8, 9}"
    by simp arith
  then show ?thesis by (auto simp: digit_char_def)
qed

lemma digit_char_less_iff:
  "n < 10 \<Longrightarrow> m < 10 \<Longrightarrow> digit_char n < digit_char m \<longleftrightarrow> n < m"
  by (simp add: less_char_def of_char_digit_char)

lemma digit_char_eq_iff:
  assumes "n < 10" "m < 10"
  shows "digit_char n = digit_char m \<longleftrightarrow> n = m"
proof -
  have "digit_char n = digit_char m \<longleftrightarrow>
      (of_char (digit_char n) :: nat) = of_char (digit_char m)"
    by simp
  also have "\<dots> \<longleftrightarrow> n = m" using assms by (simp add: of_char_digit_char)
  finally show ?thesis .
qed

lemma length_fixw [simp]: "length (fixw w n) = w"
  by (induction w arbitrary: n) auto

lemma fixw_zero: "fixw w 0 = replicate w CHR ''0''"
proof (induction w)
  case 0 show ?case by simp
next
  case (Suc w)
  have "digit_char 0 = CHR ''0''" by (simp add: digit_char_def)
  with Suc show ?case by (simp add: replicate_append_same)
qed

lemma length_dec_le: "n < 10 ^ w \<Longrightarrow> 0 < w \<Longrightarrow> length (dec n) \<le> w"
proof (induction w arbitrary: n)
  case 0 then show ?case by simp
next
  case (Suc w)
  show ?case
  proof (cases "n < 10")
    case True then show ?thesis by (simp add: dec.simps)
  next
    case False
    then have w: "0 < w" using Suc.prems by (cases w) auto
    have "n div 10 < 10 ^ w" using Suc.prems by (simp add: less_mult_imp_div_less mult.commute)
    from Suc.IH[OF this w] False show ?thesis by (subst dec.simps) simp
  qed
qed

lemma pad_dec_eq_fixw:
  "n < 10 ^ w \<Longrightarrow> 0 < w \<Longrightarrow> replicate (w - length (dec n)) CHR ''0'' @ dec n = fixw w n"
proof (induction w arbitrary: n)
  case 0 then show ?case by simp
next
  case (Suc w)
  show ?case
  proof (cases "n < 10")
    case True then show ?thesis by (simp add: dec.simps fixw_zero)
  next
    case False
    then have w: "0 < w" using Suc.prems by (cases w) auto
    have lt: "n div 10 < 10 ^ w" using Suc.prems by (simp add: less_mult_imp_div_less mult.commute)
    have len: "length (dec (n div 10)) \<le> w" by (rule length_dec_le[OF lt w])
    have "dec n = dec (n div 10) @ [digit_char (n mod 10)]" using False by (subst dec.simps) simp
    moreover have "Suc w - (length (dec (n div 10)) + 1) = w - length (dec (n div 10))" by simp
    ultimately show ?thesis using Suc.IH[OF lt w] by simp
  qed
qed

lemma zero_pad_fixw:
  "0 \<le> n \<Longrightarrow> n < 10 ^ w \<Longrightarrow> 0 < w \<Longrightarrow> zero_pad w n = fixw w (nat n)"
proof -
  assume a: "0 \<le> n" "n < 10 ^ w" "0 < w"
  then have "nat n < 10 ^ w" by (simp add: nat_less_iff)
  from pad_dec_eq_fixw[OF this a(3)] a(1) show ?thesis by (simp add: zero_pad_def)
qed

lemma append_less_append_iff:
  fixes xs ys :: "'a::linorder list"
  shows "length xs = length ys \<Longrightarrow> xs @ us < ys @ vs \<longleftrightarrow> xs < ys \<or> (xs = ys \<and> us < vs)"
  by (induction xs ys rule: list_induct2) auto

lemma divmod10_less_iff:
  fixes n m :: nat
  shows "(n div 10 < m div 10 \<or> (n div 10 = m div 10 \<and> n mod 10 < m mod 10)) \<longleftrightarrow> n < m"
proof -
  define a b c e where "a = n div 10" and "b = n mod 10" and "c = m div 10" and "e = m mod 10"
  have "n = 10 * a + b" "m = 10 * c + e" "b < 10" "e < 10"
    by (simp_all add: a_def b_def c_def e_def)
  then have "(a < c \<or> (a = c \<and> b < e)) \<longleftrightarrow> n < m" by arith
  then show ?thesis by (simp add: a_def b_def c_def e_def)
qed

lemma divmod10_eq_iff:
  fixes n m :: nat
  shows "(n div 10 = m div 10 \<and> n mod 10 = m mod 10) \<longleftrightarrow> n = m"
  by (metis div_mult_mod_eq)

lemma fixw_less_eq:
  "n < 10 ^ w \<Longrightarrow> m < 10 ^ w \<Longrightarrow>
     (fixw w n < fixw w m \<longleftrightarrow> n < m) \<and> (fixw w n = fixw w m \<longleftrightarrow> n = m)"
proof (induction w arbitrary: n m)
  case 0 then show ?case by simp
next
  case (Suc w)
  have n: "n div 10 < 10 ^ w" and m: "m div 10 < 10 ^ w"
    using Suc.prems by (simp_all add: less_mult_imp_div_less mult.commute)
  note IH = Suc.IH[OF n m]
  have dl: "digit_char (n mod 10) < digit_char (m mod 10) \<longleftrightarrow> n mod 10 < m mod 10"
    by (rule digit_char_less_iff) simp_all
  have de: "digit_char (n mod 10) = digit_char (m mod 10) \<longleftrightarrow> n mod 10 = m mod 10"
    by (rule digit_char_eq_iff) simp_all
  have lt: "fixw (Suc w) n < fixw (Suc w) m \<longleftrightarrow>
      n div 10 < m div 10 \<or> (n div 10 = m div 10 \<and> n mod 10 < m mod 10)"
    using IH dl by (simp add: append_less_append_iff)
  have eq: "fixw (Suc w) n = fixw (Suc w) m \<longleftrightarrow> n div 10 = m div 10 \<and> n mod 10 = m mod 10"
    using IH de by simp
  show ?case
    unfolding lt eq divmod10_less_iff divmod10_eq_iff by simp
qed

lemma month_cases:
  fixes m :: int
  assumes "1 \<le> m" "m \<le> 12"
  shows "m = 1 \<or> m = 2 \<or> m = 3 \<or> m = 4 \<or> m = 5 \<or> m = 6 \<or> m = 7 \<or> m = 8 \<or> m = 9 \<or>
         m = 10 \<or> m = 11 \<or> m = 12"
  using assms by arith

lemma days_in_month_le_31:
  assumes "1 \<le> m" "m \<le> 12"
  shows "days_in_month y m \<le> 31"
proof -
  from month_cases[OF assms] show ?thesis by (auto simp: days_in_month_def DAYS_IN_MONTH_def)
qed

lemma isoformat_fixw:
  assumes "valid_date d"
  shows "isoformat d =
     fixw 4 (nat (year d)) @ ''-'' @ fixw 2 (nat (month d)) @ ''-'' @ fixw 2 (nat (day d))"
proof -
  from assms have y: "0 \<le> year d" "year d < 10 ^ 4" and m: "0 \<le> month d" "month d < 10 ^ 2"
    and m': "1 \<le> month d" "month d \<le> 12" and d: "0 \<le> day d"
    and dd: "day d \<le> days_in_month (year d) (month d)"
    by (simp_all add: valid_date_def)
  from dd days_in_month_le_31[OF m', of "year d"] have d': "day d < 10 ^ 2" by simp
  show ?thesis
    unfolding isoformat_def
    by (simp only: zero_pad_fixw[OF y] zero_pad_fixw[OF m] zero_pad_fixw[OF d d'] zero_less_numeral)
qed

lemma isoformat_less_iff:
  assumes a: "valid_date a" and b: "valid_date b"
  shows "isoformat a < isoformat b \<longleftrightarrow> date_less a b"
proof -
  have ya: "nat (year a) < 10 ^ 4" and ma: "nat (month a) < 10 ^ 2" and da: "nat (day a) < 10 ^ 2"
    using a days_in_month_le_31[of "month a" "year a"] by (auto simp: valid_date_def)
  have yb: "nat (year b) < 10 ^ 4" and mb: "nat (month b) < 10 ^ 2" and db: "nat (day b) < 10 ^ 2"
    using b days_in_month_le_31[of "month b" "year b"] by (auto simp: valid_date_def)
  have pos: "0 \<le> year a" "0 \<le> month a" "0 \<le> day a" "0 \<le> year b" "0 \<le> month b" "0 \<le> day b"
    using a b by (auto simp: valid_date_def)
  note Y = fixw_less_eq[OF ya yb] and M = fixw_less_eq[OF ma mb] and D = fixw_less_eq[OF da db]
  have "isoformat a < isoformat b \<longleftrightarrow>
      nat (year a) < nat (year b) \<or> (nat (year a) = nat (year b) \<and>
        (nat (month a) < nat (month b) \<or> (nat (month a) = nat (month b) \<and>
          nat (day a) < nat (day b))))"
    unfolding isoformat_fixw[OF a] isoformat_fixw[OF b]
    using Y M D by (simp add: append_less_append_iff)
  also have "\<dots> \<longleftrightarrow> date_less a b"
    using pos by (auto simp: date_less_def)
  finally show ?thesis .
qed

lemma isoformat_eq_iff:
  assumes a: "valid_date a" and b: "valid_date b"
  shows "isoformat a = isoformat b \<longleftrightarrow> year a = year b \<and> month a = month b \<and> day a = day b"
proof -
  have ya: "nat (year a) < 10 ^ 4" and ma: "nat (month a) < 10 ^ 2" and da: "nat (day a) < 10 ^ 2"
    using a days_in_month_le_31[of "month a" "year a"] by (auto simp: valid_date_def)
  have yb: "nat (year b) < 10 ^ 4" and mb: "nat (month b) < 10 ^ 2" and db: "nat (day b) < 10 ^ 2"
    using b days_in_month_le_31[of "month b" "year b"] by (auto simp: valid_date_def)
  have pos: "0 \<le> year a" "0 \<le> month a" "0 \<le> day a" "0 \<le> year b" "0 \<le> month b" "0 \<le> day b"
    using a b by (auto simp: valid_date_def)
  note Y = fixw_less_eq[OF ya yb] and M = fixw_less_eq[OF ma mb] and D = fixw_less_eq[OF da db]
  have "isoformat a = isoformat b \<longleftrightarrow>
      nat (year a) = nat (year b) \<and> nat (month a) = nat (month b) \<and> nat (day a) = nat (day b)"
    unfolding isoformat_fixw[OF a] isoformat_fixw[OF b]
    using Y M D by simp
  also have "\<dots> \<longleftrightarrow> year a = year b \<and> month a = month b \<and> day a = day b"
    using pos by auto
  finally show ?thesis .
qed

lemma isoformat_le_iff:
  assumes a: "valid_date a" and b: "valid_date b"
  shows "isoformat a \<le> isoformat b \<longleftrightarrow> date_le a b"
  unfolding list_le_def date_le_def isoformat_less_iff[OF a b] isoformat_eq_iff[OF a b] ..

section \<open>The ordinal of a date grows with the date\<close>

lemma days_before_month_Suc:
  assumes "1 \<le> m" "m < 12"
  shows "days_before_month y (m + 1) = days_before_month y m + days_in_month y m"
proof -
  from assms have "1 \<le> m" "m \<le> 12" by simp_all
  from month_cases[OF this] assms(2) show ?thesis
    by (auto simp: days_before_month_def days_in_month_def DAYS_BEFORE_MONTH_def DAYS_IN_MONTH_def)
qed

lemma days_in_month_pos:
  assumes "1 \<le> m" "m \<le> 12"
  shows "28 \<le> days_in_month y m"
  using month_cases[OF assms] by (auto simp: days_in_month_def DAYS_IN_MONTH_def)

lemma days_before_month_nonneg:
  assumes "1 \<le> m" "m \<le> 12"
  shows "0 \<le> days_before_month y m"
  using month_cases[OF assms] by (auto simp: days_before_month_def DAYS_BEFORE_MONTH_def)

lemma days_before_month_next:
  assumes "1 \<le> m" "m < m'" "m' \<le> 12"
  shows "days_before_month y m + days_in_month y m \<le> days_before_month y m'"
proof -
  have "m + 1 \<le> m'" using assms by simp
  then have "m' \<le> 12 \<longrightarrow> days_before_month y m + days_in_month y m \<le> days_before_month y m'"
  proof (induction m' rule: int_ge_induct)
    case base
    show ?case using days_before_month_Suc[of m y] assms(1) by simp
  next
    case (step i)
    show ?case
    proof
      assume i: "i + 1 \<le> 12"
      have i1: "1 \<le> i" "i < 12" "i \<le> 12" using step.hyps assms(1) i by simp_all
      from step.IH i1 have "days_before_month y m + days_in_month y m \<le> days_before_month y i"
        by simp
      also have "\<dots> \<le> days_before_month y (i + 1)"
        using days_before_month_Suc[OF i1(1,2), of y] days_in_month_pos[OF i1(1,3), of y] by simp
      finally show "days_before_month y m + days_in_month y m \<le> days_before_month y (i + 1)" .
    qed
  qed
  with assms(3) show ?thesis by simp
qed

lemma div_step:
  fixes y k :: int
  assumes "0 < k"
  shows "y div k = (y - 1) div k + (if y mod k = 0 then 1 else 0)"
proof -
  define q r where "q = (y - 1) div k" and "r = (y - 1) mod k"
  have r: "0 \<le> r" "r < k" using assms by (simp_all add: r_def)
  have "y - 1 = q * k + r" unfolding q_def r_def by simp
  then have y: "y = (r + 1) + q * k" by simp
  show ?thesis
  proof (cases "r + 1 = k")
    case True
    then have "y = (q + 1) * k" using y by (simp add: algebra_simps)
    then have "y div k = q + 1" "y mod k = 0" using assms by simp_all
    then show ?thesis by (simp add: q_def)
  next
    case False
    with r have lt: "r + 1 < k" "0 \<le> r + 1" by simp_all
    have "y div k = q + (r + 1) div k" using assms by (subst y) simp
    also have "(r + 1) div k = 0" using lt by simp
    finally have d: "y div k = q" by simp
    have "y mod k = (r + 1) mod k" by (subst y) simp
    also have "\<dots> = r + 1" using lt by simp
    finally have "y mod k \<noteq> 0" using r by simp
    with d show ?thesis by (simp add: q_def)
  qed
qed

lemma days_before_year_Suc:
  "days_before_year (y + 1) = days_before_year y + (if is_leap y then 366 else 365)"
proof -
  have m1: "y mod 4 = 0" if "y mod 100 = 0"
    using mod_mod_cancel[of 4 100 y] that by simp
  have m2: "y mod 100 = 0" if "y mod 400 = 0"
    using mod_mod_cancel[of 100 400 y] that by simp
  define a b c where "a = (y - 1) div 4" and "b = (y - 1) div 100" and "c = (y - 1) div 400"
  define p4 p100 p400 where "p4 = (y mod 4 = 0)" and "p100 = (y mod 100 = 0)"
    and "p400 = (y mod 400 = 0)"
  have A: "y div 4 = a + (if p4 then 1 else 0)"
    using div_step[of 4 y] by (simp add: a_def p4_def)
  have B: "y div 100 = b + (if p100 then 1 else 0)"
    using div_step[of 100 y] by (simp add: b_def p100_def)
  have C: "y div 400 = c + (if p400 then 1 else 0)"
    using div_step[of 400 y] by (simp add: c_def p400_def)
  have L: "days_before_year (y + 1) = y * 365 + y div 4 - y div 100 + y div 400"
    by (simp add: days_before_year_def)
  have R: "days_before_year y = (y - 1) * 365 + a - b + c"
    by (simp add: days_before_year_def Let_def a_def b_def c_def)
  have leap: "is_leap y = (p4 \<and> (\<not> p100 \<or> p400))"
    by (simp add: is_leap_def p4_def p100_def p400_def)
  have i1: "p100 \<Longrightarrow> p4" and i2: "p400 \<Longrightarrow> p100"
    using m1 m2 by (simp_all add: p4_def p100_def p400_def)
  show ?thesis
    unfolding L R A B C leap using i1 i2
    by (cases p4; cases p100; cases p400) (simp_all add: algebra_simps)
qed

lemma days_before_year_mono:
  assumes "y1 < y2"
  shows "days_before_year (y1 + 1) \<le> days_before_year y2"
proof -
  have "y1 + 1 \<le> y2" using assms by simp
  then show ?thesis
  proof (induction y2 rule: int_ge_induct)
    case base show ?case by simp
  next
    case (step i)
    have "days_before_year i \<le> days_before_year (i + 1)"
      by (simp add: days_before_year_Suc)
    with step.IH show ?case by simp
  qed
qed

lemma days_in_year:
  "days_before_month y 12 + days_in_month y 12 = (if is_leap y then 366 else 365)"
  by (simp add: days_before_month_def days_in_month_def DAYS_BEFORE_MONTH_def DAYS_IN_MONTH_def)

lemma toordinal_mono:
  assumes a: "valid_date a" and b: "valid_date b" and lt: "date_less a b"
  shows "toordinal a < toordinal b"
proof -
  have ma: "1 \<le> month a" "month a \<le> 12" and mb: "1 \<le> month b" "month b \<le> 12"
    and da: "1 \<le> day a" "day a \<le> days_in_month (year a) (month a)"
    and db: "1 \<le> day b" "day b \<le> days_in_month (year b) (month b)"
    using a b by (simp_all add: valid_date_def)
  have within: "days_before_month (year a) (month a) + day a
      \<le> days_before_month (year a) 12 + days_in_month (year a) 12"
  proof (cases "month a = 12")
    case True with da show ?thesis by simp
  next
    case False
    with ma have "month a < 12" by simp
    from days_before_month_next[OF ma(1) this, of "year a"] da
      days_in_month_pos[of 12 "year a"]
    show ?thesis by simp
  qed
  consider (y) "year a < year b"
    | (m) "year a = year b" "month a < month b"
    | (d) "year a = year b" "month a = month b" "day a < day b"
    using lt by (auto simp: date_less_def)
  then show ?thesis
  proof cases
    case y
    have "toordinal a \<le> days_before_year (year a) + (if is_leap (year a) then 366 else 365)"
      using within by (simp add: toordinal_def ymd2ord_def days_in_year)
    also have "\<dots> = days_before_year (year a + 1)" by (simp add: days_before_year_Suc)
    also have "\<dots> \<le> days_before_year (year b)" by (rule days_before_year_mono[OF y])
    also have "\<dots> < toordinal b"
      using days_before_month_nonneg[OF mb, of "year b"] db
      by (simp add: toordinal_def ymd2ord_def)
    finally show ?thesis .
  next
    case m
    from days_before_month_next[OF ma(1) m(2) mb(2), of "year a"] da db m(1)
    show ?thesis by (simp add: toordinal_def ymd2ord_def)
  next
    case d
    then show ?thesis by (simp add: toordinal_def ymd2ord_def)
  qed
qed

lemma date_less_total:
  "date_less a b \<or> date_less b a \<or> (year a = year b \<and> month a = month b \<and> day a = day b)"
  by (auto simp: date_less_def)

lemma toordinal_less_iff:
  assumes a: "valid_date a" and b: "valid_date b"
  shows "toordinal a < toordinal b \<longleftrightarrow> date_less a b"
proof
  assume "date_less a b" then show "toordinal a < toordinal b" by (rule toordinal_mono[OF a b])
next
  assume lt: "toordinal a < toordinal b"
  show "date_less a b"
  proof (rule ccontr)
    assume n: "\<not> date_less a b"
    from date_less_total[of a b] n
    consider "date_less b a" | "year a = year b \<and> month a = month b \<and> day a = day b" by blast
    then show False
    proof cases
      case 1
      from toordinal_mono[OF b a 1] lt show False by simp
    next
      case 2
      then have "toordinal a = toordinal b" by (simp add: toordinal_def)
      with lt show False by simp
    qed
  qed
qed

section \<open>The endpoint as a chain of checks\<close>

lemma ObjectId_error: "ObjectId cid = Inl e \<Longrightarrow> e = InvalidId"
  by (auto simp: ObjectId_def split: if_splits option.splits)

lemma is_valid_iff: "is_valid cid \<longleftrightarrow> (\<exists>oid. ObjectId cid = Inr oid)"
proof (cases "cid = []")
  case True
  then show ?thesis by (simp add: is_valid_def ObjectId_def)
next
  case False
  then show ?thesis by (cases "ObjectId cid") (simp_all add: is_valid_def)
qed

lemma find_one_None_iff: "find_one xs P = None \<longleftrightarrow> (\<forall>x \<in> set xs. \<not> P x)"
  by (auto simp: find_one_def find_None_iff)

lemma find_one_Some: "find_one xs P = Some x \<Longrightarrow> x \<in> set xs \<and> P x"
  by (auto simp: find_one_def find_Some_iff)

lemma find_car_eq:
  "find_car db cid =
     (case ObjectId cid of
        Inl _ \<Rightarrow> Inr None
      | Inr oid \<Rightarrow> Inr (find_one (cars db) (\<lambda>c. car_oid c = oid)))"
  using is_valid_iff[of cid] by (cases "ObjectId cid") (auto simp: find_car_def)

lemma find_car_None_iff: "find_car db cid = Inr None \<longleftrightarrow> \<not> resolves db cid"
  by (cases "ObjectId cid") (auto simp: find_car_eq resolves_def find_one_None_iff)

lemma find_car_cases:
  "find_car db cid = Inr None \<or> (\<exists>c. find_car db cid = Inr (Some c))"
  by (cases "ObjectId cid") (auto simp: find_car_eq)

lemma create_document_serialise:
  "create_document db (model_dump p (isoformat (start_date p)) (isoformat (end_date p)))
     = (next_id db, store_after db p)"
  by (simp add: create_document_def model_dump_def store_after_def serialise_def Let_def
      booking_data.extend_def booking_doc.fields_def)

lemma create_booking_eq:
  "create_booking db p =
     (if date_less (end_date p) (start_date p) then (Inl InvalidRange, db)
      else if 31 < inclusive_span p then (Inl RentalTooLong, db)
      else if \<not> resolves db (car_id p) then (Inl CarNotFound, db)
      else if conflicts db p then (Inl DateConflict, db)
      else (Inr (next_id db), store_after db p))"
proof -
  let ?flt = "overlap_filter (car_id p) (isoformat (start_date p)) (isoformat (end_date p))"
  have c: "conflicts db p \<longleftrightarrow> find_one (bookings db) ?flt \<noteq> None"
    by (auto simp: conflicts_def find_one_None_iff overlap_filter_def)
  show ?thesis
  proof (cases "find_car db (car_id p)")
    case (Inl e)
    then show ?thesis using find_car_cases[of db "car_id p"] by auto
  next
    case (Inr oc)
    show ?thesis
    proof (cases oc)
      case None
      with Inr have "\<not> resolves db (car_id p)" by (simp add: find_car_None_iff)
      with Inr None show ?thesis
        by (simp add: create_booking_def inclusive_span_def Let_def)
    next
      case (Some car)
      with Inr have r: "resolves db (car_id p)" using find_car_None_iff[of db "car_id p"] by auto
      show ?thesis
      proof (cases "find_one (bookings db) ?flt")
        case None
        with c have "\<not> conflicts db p" by simp
        with Inr Some None r show ?thesis
          by (simp add: create_booking_def inclusive_span_def Let_def create_document_serialise)
      next
        case (Some b)
        with c have "conflicts db p" by simp
        with Inr \<open>oc = Some car\<close> Some r show ?thesis
          by (simp add: create_booking_def inclusive_span_def Let_def)
      qed
    qed
  qed
qed

lemma resolves_store_after [simp]: "resolves (store_after db p) cid = resolves db cid"
  by (cases "ObjectId cid") (simp_all add: resolves_def store_after_def)

lemma bookings_store_after [simp]:
  "bookings (store_after db p) = bookings db @ [serialise (next_id db) p]"
  by (simp add: store_after_def)

lemma cars_store_after [simp]: "cars (store_after db p) = cars db"
  by (simp add: store_after_def)

lemma next_id_store_after [simp]: "next_id (store_after db p) = Suc (next_id db)"
  by (simp add: store_after_def)

lemma error_kinds_distinct:
  "InvalidRange \<noteq> RentalTooLong" "InvalidRange \<noteq> CarNotFound" "InvalidRange \<noteq> DateConflict"
  "RentalTooLong \<noteq> CarNotFound" "RentalTooLong \<noteq> DateConflict" "CarNotFound \<noteq> DateConflict"
  by simp_all

lemma date_le_iff_not_less: "date_le a b \<longleftrightarrow> \<not> date_less b a"
  by (auto simp: date_le_def date_less_def)

lemma fixw_4: "fixw 4 n =
  [digit_char (n div 1000 mod 10), digit_char (n div 100 mod 10),
   digit_char (n div 10 mod 10), digit_char (n mod 10)]"
proof -
  have a: "n div 10 div 10 = n div 100" using div_mult2_eq[of n 10 10] by simp
  have b: "n div 100 div 10 = n div 1000" using div_mult2_eq[of n 100 10] by simp
  have four: "(4::nat) = Suc (Suc (Suc (Suc 0)))" by simp
  have "fixw 4 n =
    [digit_char (n div 10 div 10 div 10 mod 10), digit_char (n div 10 div 10 mod 10),
     digit_char (n div 10 mod 10), digit_char (n mod 10)]"
    by (simp only: four fixw.simps append.simps)
  then show ?thesis by (simp only: a b)
qed

lemma fixw_2: "fixw 2 n = [digit_char (n div 10 mod 10), digit_char (n mod 10)]"
proof -
  have two: "(2::nat) = Suc (Suc 0)" by simp
  show ?thesis by (simp only: two fixw.simps append.simps)
qed

lemma isoformat_iso_text: "valid_date d \<Longrightarrow> isoformat d = iso_text d"
  using isoformat_fixw[of d] by (simp add: fixw_4 fixw_2 iso_text_def Let_def)

section \<open>Facts about the sample data\<close>

lemma request_sel [simp]:
  "car_id (request c s e) = c" "start_date (request c s e) = s" "end_date (request c s e) = e"
  by (simp_all add: request_def)

lemma sample_iso:
  "isoformat (ymd 2024 6 1) = ''2024-06-01''"
  "isoformat (ymd 2024 6 10) = ''2024-06-10''"
  "isoformat (ymd 2024 6 11) = ''2024-06-11''"
  "isoformat (ymd 2024 6 15) = ''2024-06-15''"
  by (simp_all add: isoformat_def zero_pad_def dec.simps digit_char_def ymd_def)

lemma sample_ordinal:
  "toordinal (ymd 2024 6 1) = 739038"
  "toordinal (ymd 2024 6 10) = 739047"
  "toordinal (ymd 2024 6 11) = 739048"
  "toordinal (ymd 2024 6 15) = 739052"
  "toordinal (ymd 2024 7 1) = 739068"
  "toordinal (ymd 2024 7 2) = 739069"
  by (simp_all add: toordinal_def ymd2ord_def days_before_year_def days_before_month_def
      DAYS_BEFORE_MONTH_def is_leap_def ymd_def)

lemma sample_valid:
  "valid_date (ymd 2024 6 1)" "valid_date (ymd 2024 6 10)" "valid_date (ymd 2024 6 11)"
  "valid_date (ymd 2024 6 15)" "valid_date (ymd 2024 7 1)" "valid_date (ymd 2024 7 2)"
  by (simp_all add: valid_date_def days_in_month_def DAYS_IN_MONTH_def ymd_def)

lemma sample_less:
  "date_less (ymd 2024 6 1) (ymd 2024 6 10)" "\<not> date_less (ymd 2024 6 10) (ymd 2024 6 1)"
  "\<not> date_less (ymd 2024 6 15) (ymd 2024 6 10)" "\<not> date_less (ymd 2024 6 15) (ymd 2024 6 11)"
  "\<not> date_less (ymd 2024 7 1) (ymd 2024 6 1)" "\<not> date_less (ymd 2024 7 2) (ymd 2024 6 1)"
  by (simp_all add: date_less_def ymd_def)

lemma sample_oid:
  "ObjectId car_C = Inr [1, 35, 69, 103, 137, 171, 205, 239, 1, 35, 69, 103]"
  "ObjectId car_D = Inr [1, 35, 69, 103, 137, 171, 205, 239, 1, 35, 69, 106]"
  "ObjectId ''not-an-id'' = Inl InvalidId"
  by (simp_all add: ObjectId_def car_C_def car_D_def hexval_def is_space_def)

lemma sample_resolves:
  "resolves fleet car_C" "resolves fleet car_D" "\<not> resolves fleet ''not-an-id''"
  "resolves fleet_booked car_C" "resolves fleet_booked car_D"
  by (simp_all add: resolves_def sample_oid fleet_def fleet_booked_def store_after_def)

lemma sample_bookings:
  "bookings fleet = []" "next_id fleet = 0"
  "bookings fleet_booked = [serialise 0 (request car_C (ymd 2024 6 1) (ymd 2024 6 10))]"
  "next_id fleet_booked = 1"
  by (simp_all add: fleet_def fleet_booked_def store_after_def)

lemma sample_cars: "car_C \<noteq> car_D"
  by (simp add: car_C_def car_D_def)

lemma sample_oid_upper:
  "ObjectId car_C_upper = Inr [1, 35, 69, 103, 137, 171, 205, 239, 1, 35, 69, 103]"
  by (simp add: ObjectId_def car_C_upper_def hexval_def is_space_def)

lemma sample_upper_neq: "car_C_upper \<noteq> car_C" "car_C \<noteq> car_C_upper"
  by (simp_all add: car_C_upper_def car_C_def)

lemma sample_upper_resolves: "resolves fleet_booked car_C_upper"
  by (simp add: resolves_def sample_oid_upper fleet_def fleet_booked_def store_after_def)

section \<open>The date-order check\<close>

text \<open>
  C4. A candidate whose end date is strictly before its start date is rejected with
  \<open>InvalidRange\<close>, whatever its car identifier and whatever the store holds; the store
  is returned as it was.
\<close>

theorem create_booking_invalid_range:
  "date_less (end_date payload) (start_date payload) \<Longrightarrow>
     create_booking db payload = (Inl InvalidRange, db)"
  by (simp add: create_booking_def)

theorem create_booking_invalid_range_witness:
  "date_less (end_date (request ''not-an-id'' (ymd 2024 6 10) (ymd 2024 6 1)))
             (start_date (request ''not-an-id'' (ymd 2024 6 10) (ymd 2024 6 1))) \<and>
   create_booking fleet_booked (request ''not-an-id'' (ymd 2024 6 10) (ymd 2024 6 1))
     = (Inl InvalidRange, fleet_booked)"
proof -
  let ?p = "request ''not-an-id'' (ymd 2024 6 10) (ymd 2024 6 1)"
  have h: "date_less (end_date ?p) (start_date ?p)" by (simp add: sample_less)
  from h create_booking_invalid_range[OF h, of fleet_booked] show ?thesis by blast
qed

section \<open>The length check\<close>

text \<open>
  C3. With the inclusive span \<open>(end_date - start_date).days + 1\<close> of a candidate whose
  two dates are dates of the calendar: a span of at most 31 days never ends in
  \<open>RentalTooLong\<close>, and a span of 32 days or more always does, the store staying as it
  was. A span of 32 or more puts the end date after the start date, so the date-order
  check cannot pre-empt the length check.
\<close>

theorem create_booking_length_check:
  assumes "valid_booking p"
  shows "(inclusive_span p \<le> 31 \<longrightarrow> fst (create_booking db p) \<noteq> Inl RentalTooLong) \<and>
         (32 \<le> inclusive_span p \<longrightarrow> create_booking db p = (Inl RentalTooLong, db))"
proof (intro conjI impI)
  assume "inclusive_span p \<le> 31"
  then show "fst (create_booking db p) \<noteq> Inl RentalTooLong"
    by (simp add: create_booking_eq)
next
  assume long: "32 \<le> inclusive_span p"
  have v: "valid_date (start_date p)" "valid_date (end_date p)"
    using assms by (simp_all add: valid_booking_def)
  from long have "toordinal (start_date p) < toordinal (end_date p)"
    by (simp add: inclusive_span_def days_between_def)
  then have "date_less (start_date p) (end_date p)"
    by (simp add: toordinal_less_iff[OF v])
  then have "\<not> date_less (end_date p) (start_date p)"
    by (auto simp: date_less_def)
  with long show "create_booking db p = (Inl RentalTooLong, db)"
    by (simp add: create_booking_eq)
qed

theorem create_booking_length_check_witness:
  "valid_booking (request car_C (ymd 2024 6 1) (ymd 2024 7 1)) \<and>
   inclusive_span (request car_C (ymd 2024 6 1) (ymd 2024 7 1)) = 31 \<and>
   fst (create_booking fleet (request car_C (ymd 2024 6 1) (ymd 2024 7 1))) \<noteq> Inl RentalTooLong \<and>
   valid_booking (request car_C (ymd 2024 6 1) (ymd 2024 7 2)) \<and>
   inclusive_span (request car_C (ymd 2024 6 1) (ymd 2024 7 2)) = 32 \<and>
   create_booking fleet (request car_C (ymd 2024 6 1) (ymd 2024 7 2)) = (Inl RentalTooLong, fleet)"
proof -
  let ?p = "request car_C (ymd 2024 6 1) (ymd 2024 7 1)"
  let ?q = "request car_C (ymd 2024 6 1) (ymd 2024 7 2)"
  have vp: "valid_booking ?p" and vq: "valid_booking ?q"
    by (simp_all add: valid_booking_def sample_valid)
  have sp: "inclusive_span ?p = 31" and sq: "inclusive_span ?q = 32"
    by (simp_all add: inclusive_span_def days_between_def sample_ordinal)
  from create_booking_length_check[OF vp, of fleet] sp
  have a: "fst (create_booking fleet ?p) \<noteq> Inl RentalTooLong" by simp
  from create_booking_length_check[OF vq, of fleet] sq
  have b: "create_booking fleet ?q = (Inl RentalTooLong, fleet)" by simp
  from vp vq sp sq a b show ?thesis by blast
qed

section \<open>The car check\<close>

text \<open>
  C5, as the endpoint orders its checks. A candidate whose dates pass the date-order and
  the length check and whose car identifier is malformed or names no car document is
  rejected with \<open>CarNotFound\<close>, and the store stays as it was. The two date checks run
  first: a candidate with a bad identifier and an end date before its start date is
  rejected with \<open>InvalidRange\<close>, and one with a bad identifier and a span of 32 days
  with \<open>RentalTooLong\<close>.
\<close>

theorem create_booking_car_not_found:
  assumes "\<not> date_less (end_date p) (start_date p)" and "inclusive_span p \<le> 31"
    and "\<not> resolves db (car_id p)"
  shows "create_booking db p = (Inl CarNotFound, db)"
  using assms by (simp add: create_booking_eq)

theorem create_booking_car_not_found_witness:
  "\<not> date_less (end_date (request ''not-an-id'' (ymd 2024 6 1) (ymd 2024 6 10)))
               (start_date (request ''not-an-id'' (ymd 2024 6 1) (ymd 2024 6 10))) \<and>
   inclusive_span (request ''not-an-id'' (ymd 2024 6 1) (ymd 2024 6 10)) \<le> 31 \<and>
   \<not> resolves fleet (car_id (request ''not-an-id'' (ymd 2024 6 1) (ymd 2024 6 10))) \<and>
   create_booking fleet (request ''not-an-id'' (ymd 2024 6 1) (ymd 2024 6 10))
     = (Inl CarNotFound, fleet)"
proof -
  let ?p = "request ''not-an-id'' (ymd 2024 6 1) (ymd 2024 6 10)"
  have h1: "\<not> date_less (end_date ?p) (start_date ?p)" by (simp add: sample_less)
  have h2: "inclusive_span ?p \<le> 31"
    by (simp add: inclusive_span_def days_between_def sample_ordinal)
  have h3: "\<not> resolves fleet (car_id ?p)" by (simp add: sample_resolves)
  from h1 h2 h3 create_booking_car_not_found[OF h1 h2 h3] show ?thesis by blast
qed

text \<open>
  "Regardless of date validity" does not hold: this candidate has a malformed car
  identifier and an end date before its start date, and the answer is \<open>InvalidRange\<close>.
\<close>

theorem car_not_found_regardless_counterexample:
  "\<not> resolves fleet (car_id (request ''not-an-id'' (ymd 2024 6 10) (ymd 2024 6 1))) \<and>
   create_booking fleet (request ''not-an-id'' (ymd 2024 6 10) (ymd 2024 6 1))
     = (Inl InvalidRange, fleet) \<and>
   fst (create_booking fleet (request ''not-an-id'' (ymd 2024 6 10) (ymd 2024 6 1)))
     \<noteq> Inl CarNotFound"
  by (simp add: create_booking_eq sample_less sample_resolves)

text \<open>
  C10. The car lookup never ends in an identifier-parse error, for any string: the
  guard \<open>is_valid\<close> holds only when the constructor accepts the string, a string that
  the constructor rejects takes the branch without a lookup, and no admission returns
  \<open>InvalidId\<close>. A candidate with such a string whose dates pass the two date checks is
  rejected with \<open>CarNotFound\<close>.
\<close>

theorem find_car_never_raises:
  "find_car db cid \<noteq> Inl e \<and>
   (is_valid cid \<longrightarrow> (\<exists>oid. ObjectId cid = Inr oid)) \<and>
   (ObjectId cid = Inl InvalidId \<longrightarrow> find_car db cid = Inr None) \<and>
   fst (create_booking db p) \<noteq> Inl InvalidId \<and>
   (ObjectId (car_id p) = Inl InvalidId \<and> \<not> date_less (end_date p) (start_date p) \<and>
    inclusive_span p \<le> 31 \<longrightarrow> create_booking db p = (Inl CarNotFound, db))"
proof (intro conjI impI)
  show "find_car db cid \<noteq> Inl e" by (cases "ObjectId cid") (simp_all add: find_car_eq)
  show "\<exists>oid. ObjectId cid = Inr oid" if "is_valid cid" using that by (simp add: is_valid_iff)
  show "find_car db cid = Inr None" if "ObjectId cid = Inl InvalidId"
    using that by (simp add: find_car_eq)
  show "fst (create_booking db p) \<noteq> Inl InvalidId" by (simp add: create_booking_eq)
  show "create_booking db p = (Inl CarNotFound, db)"
    if "ObjectId (car_id p) = Inl InvalidId \<and> \<not> date_less (end_date p) (start_date p) \<and>
        inclusive_span p \<le> 31"
    using that by (simp add: create_booking_eq resolves_def)
qed

theorem find_car_never_raises_witness:
  "\<not> is_valid ''not-an-id'' \<and> ObjectId ''not-an-id'' = Inl InvalidId \<and>
   find_car fleet ''not-an-id'' = Inr None \<and>
   is_valid car_C \<and> (\<exists>oid. ObjectId car_C = Inr oid) \<and>
   \<not> date_less (end_date (request ''not-an-id'' (ymd 2024 6 11) (ymd 2024 6 15)))
               (start_date (request ''not-an-id'' (ymd 2024 6 11) (ymd 2024 6 15))) \<and>
   inclusive_span (request ''not-an-id'' (ymd 2024 6 11) (ymd 2024 6 15)) \<le> 31 \<and>
   create_booking fleet (request ''not-an-id'' (ymd 2024 6 11) (ymd 2024 6 15))
     = (Inl CarNotFound, fleet)"
proof -
  let ?p = "request ''not-an-id'' (ymd 2024 6 11) (ymd 2024 6 15)"
  have h1: "ObjectId ''not-an-id'' = Inl InvalidId" by (rule sample_oid)
  have h2: "is_valid car_C" by (simp add: is_valid_def sample_oid) (simp add: car_C_def)
  have h3: "\<not> is_valid ''not-an-id''" by (simp add: is_valid_def sample_oid)
  have h4: "\<not> date_less (end_date ?p) (start_date ?p)" by (simp add: sample_less)
  have h5: "inclusive_span ?p \<le> 31"
    by (simp add: inclusive_span_def days_between_def sample_ordinal)
  have h6: "ObjectId (car_id ?p) = Inl InvalidId" by (simp add: sample_oid)
  note w = find_car_never_raises[of fleet "''not-an-id''" InvalidId ?p]
  from w h1 have a: "find_car fleet ''not-an-id'' = Inr None" by blast
  from w h4 h5 h6 have c: "create_booking fleet ?p = (Inl CarNotFound, fleet)" by blast
  from find_car_never_raises[of fleet car_C InvalidId ?p] h2
  have b: "\<exists>oid. ObjectId car_C = Inr oid" by blast
  from h1 h2 h3 h4 h5 a b c show ?thesis by blast
qed

section \<open>The overlap check\<close>

text \<open>
  C6. A candidate that passes the date-order, length and car checks is admitted when
  every stored booking whose range overlaps the candidate's belongs to another car
  identifier: bookings of other cars, with identical or overlapping dates, do not
  block it.
\<close>

theorem create_booking_other_car:
  assumes "\<not> date_less (end_date p) (start_date p)" and "inclusive_span p \<le> 31"
    and "resolves db (car_id p)"
    and "\<forall>b \<in> set (bookings db).
           data_start_date b \<le> isoformat (end_date p) \<and>
           isoformat (start_date p) \<le> data_end_date b \<longrightarrow> data_car_id b \<noteq> car_id p"
  shows "create_booking db p = (Inr (next_id db), store_after db p)"
proof -
  have "\<not> conflicts db p" using assms(4) by (auto simp: conflicts_def)
  with assms(1-3) show ?thesis by (simp add: create_booking_eq)
qed

theorem create_booking_other_car_witness:
  "bookings fleet_booked = [serialise 0 (request car_C (ymd 2024 6 1) (ymd 2024 6 10))] \<and>
   create_booking fleet_booked (request car_D (ymd 2024 6 1) (ymd 2024 6 10))
     = (Inr 1, store_after fleet_booked (request car_D (ymd 2024 6 1) (ymd 2024 6 10)))"
proof -
  let ?p = "request car_D (ymd 2024 6 1) (ymd 2024 6 10)"
  have h1: "\<not> date_less (end_date ?p) (start_date ?p)" by (simp add: sample_less)
  have h2: "inclusive_span ?p \<le> 31"
    by (simp add: inclusive_span_def days_between_def sample_ordinal)
  have h3: "resolves fleet_booked (car_id ?p)" by (simp add: sample_resolves)
  have h4: "\<forall>b \<in> set (bookings fleet_booked).
           data_start_date b \<le> isoformat (end_date ?p) \<and>
           isoformat (start_date ?p) \<le> data_end_date b \<longrightarrow> data_car_id b \<noteq> car_id ?p"
    by (simp add: sample_bookings serialise_def sample_cars)
  from create_booking_other_car[OF h1 h2 h3 h4]
  have "create_booking fleet_booked ?p = (Inr 1, store_after fleet_booked ?p)"
    by (simp add: sample_bookings)
  then show ?thesis by (simp add: sample_bookings)
qed

text \<open>
  C1. For a candidate that passes the date-order, length and car checks, admission fails
  with \<open>DateConflict\<close> exactly when some stored booking has the candidate's car
  identifier, a start date no later than the candidate's end date and an end date no
  earlier than the candidate's start date. The store compares the serialised dates;
  when the collection holds serialisations of bookings with calendar dates, these are
  the comparisons of the dates themselves, touching intervals included.
\<close>

theorem create_booking_conflict_iff:
  assumes "\<not> date_less (end_date p) (start_date p)" and "inclusive_span p \<le> 31"
    and "resolves db (car_id p)"
  shows "(fst (create_booking db p) = Inl DateConflict \<longleftrightarrow>
            (\<exists>b \<in> set (bookings db).
               data_car_id b = car_id p \<and>
               data_start_date b \<le> isoformat (end_date p) \<and>
               isoformat (start_date p) \<le> data_end_date b)) \<and>
         (valid_booking p \<and> bookings db = map (\<lambda>x. serialise (fst x) (snd x)) qs \<and>
          (\<forall>x \<in> set qs. valid_booking (snd x)) \<longrightarrow>
            (fst (create_booking db p) = Inl DateConflict \<longleftrightarrow>
               (\<exists>x \<in> set qs.
                  car_id (snd x) = car_id p \<and>
                  date_le (start_date (snd x)) (end_date p) \<and>
                  date_le (start_date p) (end_date (snd x)))))"
proof -
  have main: "fst (create_booking db p) = Inl DateConflict \<longleftrightarrow> conflicts db p"
    using assms by (simp add: create_booking_eq)
  have typed: "conflicts db p \<longleftrightarrow>
      (\<exists>x \<in> set qs. car_id (snd x) = car_id p \<and> date_le (start_date (snd x)) (end_date p) \<and>
         date_le (start_date p) (end_date (snd x)))"
    if v: "valid_booking p" and st: "bookings db = map (\<lambda>x. serialise (fst x) (snd x)) qs"
      and vs: "\<forall>x \<in> set qs. valid_booking (snd x)"
  proof -
    have "data_start_date (serialise (fst x) (snd x)) \<le> isoformat (end_date p) \<longleftrightarrow>
            date_le (start_date (snd x)) (end_date p)"
      and "isoformat (start_date p) \<le> data_end_date (serialise (fst x) (snd x)) \<longleftrightarrow>
            date_le (start_date p) (end_date (snd x))"
      and "data_car_id (serialise (fst x) (snd x)) = car_id (snd x)"
      if "x \<in> set qs" for x
      using that v vs by (simp_all add: serialise_def valid_booking_def isoformat_le_iff)
    then show ?thesis unfolding conflicts_def st by auto
  qed
  show ?thesis using main typed by (auto simp: conflicts_def)
qed

theorem create_booking_conflict_iff_witness:
  "\<not> date_less (end_date (request car_C (ymd 2024 6 10) (ymd 2024 6 15)))
               (start_date (request car_C (ymd 2024 6 10) (ymd 2024 6 15))) \<and>
   inclusive_span (request car_C (ymd 2024 6 10) (ymd 2024 6 15)) \<le> 31 \<and>
   resolves fleet_booked (car_id (request car_C (ymd 2024 6 10) (ymd 2024 6 15))) \<and>
   bookings fleet_booked = [serialise 0 (request car_C (ymd 2024 6 1) (ymd 2024 6 10))] \<and>
   date_le (ymd 2024 6 1) (ymd 2024 6 15) \<and> date_le (ymd 2024 6 10) (ymd 2024 6 10) \<and>
   fst (create_booking fleet_booked (request car_C (ymd 2024 6 10) (ymd 2024 6 15)))
     = Inl DateConflict \<and>
   \<not> date_le (ymd 2024 6 11) (ymd 2024 6 10) \<and>
   fst (create_booking fleet_booked (request car_C (ymd 2024 6 11) (ymd 2024 6 15)))
     \<noteq> Inl DateConflict"
proof -
  let ?old = "request car_C (ymd 2024 6 1) (ymd 2024 6 10)"
  let ?p = "request car_C (ymd 2024 6 10) (ymd 2024 6 15)"
  let ?q = "request car_C (ymd 2024 6 11) (ymd 2024 6 15)"
  let ?qs = "[(0::nat, ?old)]"
  have p1: "\<not> date_less (end_date ?p) (start_date ?p)"
    and q1: "\<not> date_less (end_date ?q) (start_date ?q)"
    by (simp_all add: sample_less)
  have p2: "inclusive_span ?p \<le> 31" and q2: "inclusive_span ?q \<le> 31"
    by (simp_all add: inclusive_span_def days_between_def sample_ordinal)
  have p3: "resolves fleet_booked (car_id ?p)" and q3: "resolves fleet_booked (car_id ?q)"
    by (simp_all add: sample_resolves)
  have vp: "valid_booking ?p" and vq: "valid_booking ?q"
    by (simp_all add: valid_booking_def sample_valid)
  have st: "bookings fleet_booked = map (\<lambda>x. serialise (fst x) (snd x)) ?qs"
    by (simp add: sample_bookings)
  have vs: "\<forall>x \<in> set ?qs. valid_booking (snd x)"
    by (simp add: valid_booking_def sample_valid)
  have d1: "date_le (ymd 2024 6 1) (ymd 2024 6 15)" "date_le (ymd 2024 6 10) (ymd 2024 6 10)"
    and d2: "\<not> date_le (ymd 2024 6 11) (ymd 2024 6 10)"
    by (simp_all add: date_le_def date_less_def ymd_def)
  from create_booking_conflict_iff[OF p1 p2 p3, of ?qs] vp st vs
  have "fst (create_booking fleet_booked ?p) = Inl DateConflict \<longleftrightarrow>
      (\<exists>x \<in> set ?qs. car_id (snd x) = car_id ?p \<and> date_le (start_date (snd x)) (end_date ?p) \<and>
         date_le (start_date ?p) (end_date (snd x)))"
    by blast
  with d1 have a: "fst (create_booking fleet_booked ?p) = Inl DateConflict" by simp
  from create_booking_conflict_iff[OF q1 q2 q3, of ?qs] vq st vs
  have "fst (create_booking fleet_booked ?q) = Inl DateConflict \<longleftrightarrow>
      (\<exists>x \<in> set ?qs. car_id (snd x) = car_id ?q \<and> date_le (start_date (snd x)) (end_date ?q) \<and>
         date_le (start_date ?q) (end_date (snd x)))"
    by blast
  with d2 have b: "fst (create_booking fleet_booked ?q) \<noteq> Inl DateConflict" by simp
  from p1 p2 p3 d1 d2 a b show ?thesis by (simp add: sample_bookings)
qed

section \<open>Effect on the store\<close>

text \<open>
  C7. An admission that fails returns the store unchanged, and its error is one of the
  four kinds. An admission that succeeds with identifier \<open>i\<close> returns the store with
  exactly one document appended to the booking collection, the serialisation of the
  candidate under \<open>i\<close>; the car collection is the same.
\<close>

theorem create_booking_effect:
  "(case fst (create_booking db p) of
      Inl e \<Rightarrow> snd (create_booking db p) = db \<and>
               e \<in> {InvalidRange, RentalTooLong, CarNotFound, DateConflict}
    | Inr i \<Rightarrow> snd (create_booking db p) = store_after db p \<and>
               bookings (snd (create_booking db p)) = bookings db @ [serialise i p] \<and>
               cars (snd (create_booking db p)) = cars db)"
  by (simp add: create_booking_eq)

theorem create_booking_effect_witness:
  "fst (create_booking fleet (request car_C (ymd 2024 6 1) (ymd 2024 6 10))) = Inr 0 \<and>
   snd (create_booking fleet (request car_C (ymd 2024 6 1) (ymd 2024 6 10))) = fleet_booked \<and>
   bookings fleet_booked
     = bookings fleet @ [serialise 0 (request car_C (ymd 2024 6 1) (ymd 2024 6 10))] \<and>
   fst (create_booking fleet_booked (request car_C (ymd 2024 6 10) (ymd 2024 6 15)))
     = Inl DateConflict \<and>
   snd (create_booking fleet_booked (request car_C (ymd 2024 6 10) (ymd 2024 6 15)))
     = fleet_booked"
proof -
  let ?p = "request car_C (ymd 2024 6 1) (ymd 2024 6 10)"
  let ?q = "request car_C (ymd 2024 6 10) (ymd 2024 6 15)"
  have r1: "fst (create_booking fleet ?p) = Inr 0"
    by (simp add: create_booking_eq sample_less sample_resolves sample_bookings conflicts_def
        inclusive_span_def days_between_def sample_ordinal)
  have r2: "fst (create_booking fleet_booked ?q) = Inl DateConflict"
    by (simp add: create_booking_eq sample_less sample_resolves sample_bookings conflicts_def
        inclusive_span_def days_between_def sample_ordinal serialise_def sample_iso)
  from create_booking_effect[of fleet ?p] r1
  have a: "snd (create_booking fleet ?p) = fleet_booked"
    and a': "bookings (snd (create_booking fleet ?p)) = bookings fleet @ [serialise 0 ?p]"
    by (simp_all add: fleet_booked_def sample_bookings(2))
  from create_booking_effect[of fleet_booked ?q] r2
  have b: "snd (create_booking fleet_booked ?q) = fleet_booked" by simp
  from r1 r2 a a' b show ?thesis by simp
qed

section \<open>What is persisted\<close>

text \<open>
  C9. When the admission of a candidate with calendar dates succeeds with identifier
  \<open>i\<close>, that identifier is the one the store assigned, the booking collection has grown
  by exactly the serialisation of the candidate under \<open>i\<close>, which is its last document,
  and the two stored dates are the ten-character zero-padded \<open>YYYY-MM-DD\<close> texts of the
  candidate's dates.
\<close>

theorem create_booking_persists:
  assumes "valid_booking p" and "create_booking db p = (Inr i, db')"
  shows "i = next_id db \<and>
         bookings db' = bookings db @ [serialise i p] \<and>
         doc_id (last (bookings db')) = i \<and>
         data_start_date (serialise i p) = iso_text (start_date p) \<and>
         data_end_date (serialise i p) = iso_text (end_date p) \<and>
         length (iso_text (start_date p)) = 10 \<and> length (iso_text (end_date p)) = 10"
proof -
  from assms(2) have "i = next_id db" "db' = store_after db p"
    by (auto simp: create_booking_eq split: if_splits)
  moreover have "data_start_date (serialise i p) = iso_text (start_date p)"
    "data_end_date (serialise i p) = iso_text (end_date p)"
    using assms(1) by (simp_all add: serialise_def valid_booking_def isoformat_iso_text)
  moreover have "doc_id (serialise i p) = i" by (simp add: serialise_def)
  ultimately show ?thesis by (simp add: iso_text_def Let_def)
qed

theorem create_booking_persists_witness:
  "valid_booking (request car_C (ymd 2024 6 1) (ymd 2024 6 10)) \<and>
   create_booking fleet (request car_C (ymd 2024 6 1) (ymd 2024 6 10)) = (Inr 0, fleet_booked) \<and>
   bookings fleet_booked
     = bookings fleet @ [serialise 0 (request car_C (ymd 2024 6 1) (ymd 2024 6 10))] \<and>
   data_start_date (serialise 0 (request car_C (ymd 2024 6 1) (ymd 2024 6 10)))
     = iso_text (ymd 2024 6 1) \<and>
   iso_text (ymd 2024 6 1) = ''2024-06-01'' \<and>
   data_end_date (serialise 0 (request car_C (ymd 2024 6 1) (ymd 2024 6 10)))
     = iso_text (ymd 2024 6 10) \<and>
   iso_text (ymd 2024 6 10) = ''2024-06-10''"
proof -
  let ?p = "request car_C (ymd 2024 6 1) (ymd 2024 6 10)"
  have v: "valid_booking ?p" by (simp add: valid_booking_def sample_valid)
  have r: "create_booking fleet ?p = (Inr 0, fleet_booked)"
    by (simp add: create_booking_eq sample_less sample_resolves sample_bookings conflicts_def
        inclusive_span_def days_between_def sample_ordinal fleet_booked_def)
  have t: "iso_text (ymd 2024 6 1) = ''2024-06-01''" "iso_text (ymd 2024 6 10) = ''2024-06-10''"
    by (simp_all add: iso_text_def digit_char_def ymd_def)
  from create_booking_persists[OF v r] v r t show ?thesis by simp
qed

section \<open>Submitting a candidate twice\<close>

lemma serialised_self_overlap:
  assumes "valid_booking p" and "\<not> date_less (end_date p) (start_date p)"
  shows "isoformat (start_date p) \<le> isoformat (end_date p)"
  using assms by (simp add: valid_booking_def isoformat_le_iff date_le_iff_not_less)

text \<open>
  C8. Admission is not idempotent. After a candidate with calendar dates has been
  admitted under identifier \<open>i\<close>, the stored document matches the overlap query of the
  same candidate, so submitting it again is rejected with \<open>DateConflict\<close> and changes
  nothing, where the first submission returned an identifier. Whatever second candidate
  is admitted after the first receives another identifier, and both documents are in
  the collection.
\<close>

theorem resubmission_conflicts:
  assumes "valid_booking p" and "create_booking db p = (Inr i, db')"
  shows "overlap_filter (car_id p) (isoformat (start_date p)) (isoformat (end_date p))
           (serialise i p) \<and>
         create_booking db' p = (Inl DateConflict, db') \<and>
         (\<forall>q j db''. create_booking db' q = (Inr j, db'') \<longrightarrow>
            j \<noteq> i \<and> bookings db'' = bookings db @ [serialise i p, serialise j q])"
proof -
  from assms(2) have ok: "\<not> date_less (end_date p) (start_date p)" "inclusive_span p \<le> 31"
      "resolves db (car_id p)" and i: "i = next_id db" and db': "db' = store_after db p"
    by (auto simp: create_booking_eq split: if_splits)
  have le: "isoformat (start_date p) \<le> isoformat (end_date p)"
    by (rule serialised_self_overlap[OF assms(1) ok(1)])
  then have flt: "overlap_filter (car_id p) (isoformat (start_date p)) (isoformat (end_date p))
           (serialise i p)"
    by (simp add: overlap_filter_def serialise_def)
  have "conflicts db' p"
    unfolding conflicts_def db' using le
    by (auto simp: serialise_def)
  with ok have again: "create_booking db' p = (Inl DateConflict, db')"
    by (simp add: create_booking_eq db')
  have other: "j \<noteq> i \<and> bookings db'' = bookings db @ [serialise i p, serialise j q]"
    if "create_booking db' q = (Inr j, db'')" for q j db''
  proof -
    from that have "j = next_id db'" "db'' = store_after db' q"
      by (auto simp: create_booking_eq split: if_splits)
    then show ?thesis by (simp add: db' i)
  qed
  from flt again other show ?thesis by blast
qed

theorem resubmission_conflicts_witness:
  "valid_booking (request car_C (ymd 2024 6 1) (ymd 2024 6 10)) \<and>
   create_booking fleet (request car_C (ymd 2024 6 1) (ymd 2024 6 10)) = (Inr 0, fleet_booked) \<and>
   create_booking fleet_booked (request car_C (ymd 2024 6 1) (ymd 2024 6 10))
     = (Inl DateConflict, fleet_booked) \<and>
   create_booking fleet_booked (request car_C (ymd 2024 6 11) (ymd 2024 6 15))
     = (Inr 1, store_after fleet_booked (request car_C (ymd 2024 6 11) (ymd 2024 6 15))) \<and>
   (1::nat) \<noteq> 0 \<and>
   bookings (store_after fleet_booked (request car_C (ymd 2024 6 11) (ymd 2024 6 15)))
     = bookings fleet @ [serialise 0 (request car_C (ymd 2024 6 1) (ymd 2024 6 10)),
                         serialise 1 (request car_C (ymd 2024 6 11) (ymd 2024 6 15))]"
proof -
  let ?p = "request car_C (ymd 2024 6 1) (ymd 2024 6 10)"
  let ?q = "request car_C (ymd 2024 6 11) (ymd 2024 6 15)"
  have v: "valid_booking ?p" by (simp add: valid_booking_def sample_valid)
  have r: "create_booking fleet ?p = (Inr 0, fleet_booked)"
    by (simp add: create_booking_eq sample_less sample_resolves sample_bookings conflicts_def
        inclusive_span_def days_between_def sample_ordinal fleet_booked_def)
  have r2: "create_booking fleet_booked ?q = (Inr 1, store_after fleet_booked ?q)"
    by (simp add: create_booking_eq sample_less sample_resolves sample_bookings conflicts_def
        inclusive_span_def days_between_def sample_ordinal serialise_def sample_iso)
  note w = resubmission_conflicts[OF v r]
  from w have a: "create_booking fleet_booked ?p = (Inl DateConflict, fleet_booked)" by blast
  from w r2 have b: "bookings (store_after fleet_booked ?q)
      = bookings fleet @ [serialise 0 ?p, serialise 1 ?q]" by blast
  from v r r2 a b show ?thesis by simp
qed

section \<open>Exclusive use of a car\<close>

lemma ranges_overlap_sym: "ranges_overlap a b = ranges_overlap b a"
  by (auto simp: ranges_overlap_def)

lemma exclusive_snoc:
  "exclusive (bs @ [b]) \<longleftrightarrow>
     exclusive bs \<and> (\<forall>c \<in> set bs. data_car_id c = data_car_id b \<longrightarrow> \<not> ranges_overlap c b)"
proof (induction bs)
  case Nil
  show ?case by simp
next
  case (Cons a bs)
  show ?case using Cons.IH ranges_overlap_sym[of a b] by auto
qed

lemma exclusive_nth_less:
  "exclusive bs \<Longrightarrow> i < j \<Longrightarrow> j < length bs \<Longrightarrow>
     data_car_id (bs ! i) = data_car_id (bs ! j) \<Longrightarrow> \<not> ranges_overlap (bs ! i) (bs ! j)"
proof (induction bs arbitrary: i j)
  case Nil
  then show ?case by simp
next
  case (Cons b bs)
  obtain j' where j: "j = Suc j'" using Cons.prems(2) by (cases j) auto
  show ?case
  proof (cases i)
    case 0
    have "bs ! j' \<in> set bs" using Cons.prems(3) j by simp
    with Cons.prems(1,4) 0 j show ?thesis by auto
  next
    case (Suc i')
    with Cons.prems j Cons.IH[of i' j'] show ?thesis by simp
  qed
qed

lemma exclusive_nth:
  assumes "exclusive bs" "i < length bs" "j < length bs" "i \<noteq> j"
    and "data_car_id (bs ! i) = data_car_id (bs ! j)"
  shows "\<not> ranges_overlap (bs ! i) (bs ! j)"
proof (cases "i < j")
  case True
  from exclusive_nth_less[OF assms(1) True assms(3,5)] show ?thesis .
next
  case False
  with assms(4) have "j < i" by simp
  from exclusive_nth_less[OF assms(1) this assms(2)] assms(5) show ?thesis
    by (simp add: ranges_overlap_sym)
qed

lemma ranges_overlap_serialise:
  assumes "valid_booking p" "valid_booking q"
  shows "ranges_overlap (serialise a p) (serialise b q) \<longleftrightarrow>
           dates_overlap (start_date p) (end_date p) (start_date q) (end_date q)"
  using assms
  by (simp add: ranges_overlap_def dates_overlap_def serialise_def valid_booking_def
      isoformat_le_iff)

lemma exclusive_imp_exclusive_dates:
  assumes "exclusive bs"
  shows "exclusive_dates bs"
  unfolding exclusive_dates_def
proof (intro allI impI, elim conjE)
  fix i j a b p q
  assume ij: "i < length bs" "j < length bs" "i \<noteq> j"
    and bi: "bs ! i = serialise a p" and bj: "bs ! j = serialise b q"
    and v: "valid_booking p" "valid_booking q" and c: "car_id p = car_id q"
  have "data_car_id (bs ! i) = data_car_id (bs ! j)" using bi bj c by (simp add: serialise_def)
  from exclusive_nth[OF assms ij this]
  show "\<not> dates_overlap (start_date p) (end_date p) (start_date q) (end_date q)"
    by (simp add: bi bj ranges_overlap_serialise[OF v])
qed

lemma create_booking_exclusive:
  assumes "exclusive (bookings db)"
  shows "exclusive (bookings (snd (create_booking db p)))"
proof (cases "fst (create_booking db p)")
  case (Inl e)
  then have "snd (create_booking db p) = db" by (auto simp: create_booking_eq split: if_splits)
  with assms show ?thesis by simp
next
  case (Inr i)
  then have nc: "\<not> conflicts db p" and st: "snd (create_booking db p) = store_after db p"
    by (auto simp: create_booking_eq split: if_splits)
  from nc have "\<forall>c \<in> set (bookings db). data_car_id c = data_car_id (serialise (next_id db) p)
      \<longrightarrow> \<not> ranges_overlap c (serialise (next_id db) p)"
    by (auto simp: conflicts_def ranges_overlap_def serialise_def)
  with assms show ?thesis by (simp add: st exclusive_snoc)
qed

lemma admit_all_exclusive:
  "exclusive (bookings db) \<Longrightarrow> exclusive (bookings (snd (admit_all db ps)))"
proof (induction ps arbitrary: db)
  case Nil
  then show ?case by simp
next
  case (Cons p ps)
  from create_booking_exclusive[OF Cons.prems, of p]
  have "exclusive (bookings (snd (admit_all (snd (create_booking db p)) ps)))"
    by (rule Cons.IH)
  then show ?case by (simp add: split_beta Let_def)
qed

text \<open>
  What the overlap query secures, with bookings grouped by the car identifier as it is
  written: from a store in which no two bookings that carry one identifier overlap, any
  sequence of admission calls made one after the other ends in such a store, on the
  stored ranges and on the dates they serialise. Each single call keeps the property, and
  a call that fails returns the store unchanged.
\<close>

theorem admission_keeps_exclusive:
  assumes "exclusive (bookings db)"
  shows "exclusive (bookings (snd (admit_all db ps))) \<and>
         exclusive_dates (bookings (snd (admit_all db ps))) \<and>
         exclusive (bookings (snd (create_booking db p))) \<and>
         (\<forall>e. fst (create_booking db p) = Inl e \<longrightarrow> snd (create_booking db p) = db)"
proof -
  have a: "exclusive (bookings (snd (admit_all db ps)))"
    by (rule admit_all_exclusive[OF assms])
  have b: "exclusive (bookings (snd (create_booking db p)))"
    by (rule create_booking_exclusive[OF assms])
  have c: "\<forall>e. fst (create_booking db p) = Inl e \<longrightarrow> snd (create_booking db p) = db"
    by (auto simp: create_booking_eq split: if_splits)
  from a exclusive_imp_exclusive_dates[OF a] b c show ?thesis by blast
qed

theorem admission_keeps_exclusive_witness:
  "exclusive (bookings fleet_booked) \<and>
   exclusive (bookings (snd (admit_all fleet_booked
     [request car_C (ymd 2024 6 10) (ymd 2024 6 15),
      request car_C (ymd 2024 6 11) (ymd 2024 6 15),
      request car_D (ymd 2024 6 1) (ymd 2024 6 10)]))) \<and>
   exclusive_dates (bookings (snd (admit_all fleet_booked
     [request car_C (ymd 2024 6 10) (ymd 2024 6 15),
      request car_C (ymd 2024 6 11) (ymd 2024 6 15),
      request car_D (ymd 2024 6 1) (ymd 2024 6 10)]))) \<and>
   fst (create_booking fleet_booked (request car_C (ymd 2024 6 10) (ymd 2024 6 15)))
     = Inl DateConflict \<and>
   snd (create_booking fleet_booked (request car_C (ymd 2024 6 10) (ymd 2024 6 15)))
     = fleet_booked"
proof -
  let ?p = "request car_C (ymd 2024 6 10) (ymd 2024 6 15)"
  let ?ps = "[?p, request car_C (ymd 2024 6 11) (ymd 2024 6 15),
              request car_D (ymd 2024 6 1) (ymd 2024 6 10)]"
  have h: "exclusive (bookings fleet_booked)" by (simp add: sample_bookings)
  have r: "fst (create_booking fleet_booked ?p) = Inl DateConflict"
    by (simp add: create_booking_eq sample_less sample_resolves sample_bookings conflicts_def
        inclusive_span_def days_between_def sample_ordinal serialise_def sample_iso)
  note w = admission_keeps_exclusive[OF h, of ?ps ?p]
  from w r have u: "snd (create_booking fleet_booked ?p) = fleet_booked" by blast
  from h w r u show ?thesis by blast
qed

text \<open>
  C2. After admission calls made one after the other, no two admitted bookings of one
  car should have overlapping date ranges. The endpoint does not keep this: it looks the
  car up through the parsed object identifier, which reads hexadecimal digits in either
  case, and scopes the overlap query by the identifier as it is written. With car C
  booked from 2024-06-01 to 2024-06-10, a candidate that writes the identifier of car C
  in upper case finds the same car document, is admitted for the same dates under
  identifier 1, and the collection then holds two bookings of that car whose ranges
  overlap. Grouped by the written identifier the two bookings belong to different
  groups, so the property of the preceding theorem still holds of that store.
\<close>

theorem same_car_double_booking:
  "ObjectId car_C_upper = ObjectId car_C \<and>
   find_car fleet_booked car_C_upper = find_car fleet_booked car_C \<and>
   find_car fleet_booked car_C
     = Inr (Some \<lparr>car_oid = [1, 35, 69, 103, 137, 171, 205, 239, 1, 35, 69, 103],
                   car_attrs = ()\<rparr>) \<and>
   bookings fleet_booked = [serialise 0 (request car_C (ymd 2024 6 1) (ymd 2024 6 10))] \<and>
   exclusive_per_car (bookings fleet_booked) \<and>
   create_booking fleet_booked (request car_C_upper (ymd 2024 6 1) (ymd 2024 6 10))
     = (Inr 1, store_after fleet_booked (request car_C_upper (ymd 2024 6 1) (ymd 2024 6 10))) \<and>
   bookings (snd (create_booking fleet_booked
                    (request car_C_upper (ymd 2024 6 1) (ymd 2024 6 10))))
     = [serialise 0 (request car_C (ymd 2024 6 1) (ymd 2024 6 10)),
        serialise 1 (request car_C_upper (ymd 2024 6 1) (ymd 2024 6 10))] \<and>
   names_same_car
     (data_car_id (serialise 0 (request car_C (ymd 2024 6 1) (ymd 2024 6 10))))
     (data_car_id (serialise 1 (request car_C_upper (ymd 2024 6 1) (ymd 2024 6 10)))) \<and>
   ranges_overlap (serialise 0 (request car_C (ymd 2024 6 1) (ymd 2024 6 10)))
                  (serialise 1 (request car_C_upper (ymd 2024 6 1) (ymd 2024 6 10))) \<and>
   dates_overlap (ymd 2024 6 1) (ymd 2024 6 10) (ymd 2024 6 1) (ymd 2024 6 10) \<and>
   \<not> exclusive_per_car
       (bookings (snd (create_booking fleet_booked
                         (request car_C_upper (ymd 2024 6 1) (ymd 2024 6 10))))) \<and>
   exclusive
     (bookings (snd (create_booking fleet_booked
                       (request car_C_upper (ymd 2024 6 1) (ymd 2024 6 10)))))"
proof -
  let ?old = "request car_C (ymd 2024 6 1) (ymd 2024 6 10)"
  let ?p = "request car_C_upper (ymd 2024 6 1) (ymd 2024 6 10)"
  have oid: "ObjectId car_C_upper = ObjectId car_C" by (simp add: sample_oid sample_oid_upper)
  have fc: "find_car fleet_booked car_C_upper = find_car fleet_booked car_C"
    by (simp add: find_car_eq oid)
  have car: "find_car fleet_booked car_C
     = Inr (Some \<lparr>car_oid = [1, 35, 69, 103, 137, 171, 205, 239, 1, 35, 69, 103],
                   car_attrs = ()\<rparr>)"
    by (simp add: find_car_eq sample_oid find_one_def fleet_booked_def fleet_def store_after_def)
  have bk: "bookings fleet_booked = [serialise 0 ?old]" by (rule sample_bookings)
  have e0: "exclusive_per_car (bookings fleet_booked)" by (simp add: bk)
  have r: "create_booking fleet_booked ?p = (Inr 1, store_after fleet_booked ?p)"
    by (simp add: create_booking_eq sample_less sample_upper_neq sample_upper_resolves
        sample_bookings conflicts_def inclusive_span_def days_between_def sample_ordinal
        serialise_def)
  have bs: "bookings (snd (create_booking fleet_booked ?p)) = [serialise 0 ?old, serialise 1 ?p]"
    by (simp add: r sample_bookings)
  have same: "names_same_car (data_car_id (serialise 0 ?old)) (data_car_id (serialise 1 ?p))"
    by (simp add: names_same_car_def serialise_def sample_oid sample_oid_upper)
  have ov: "ranges_overlap (serialise 0 ?old) (serialise 1 ?p)"
    by (simp add: ranges_overlap_def serialise_def sample_iso)
  have dov: "dates_overlap (ymd 2024 6 1) (ymd 2024 6 10) (ymd 2024 6 1) (ymd 2024 6 10)"
    by (simp add: dates_overlap_def date_le_def sample_less)
  have same': "names_same_car (data_car_id (serialise 1 ?p)) (data_car_id (serialise 0 ?old))"
    by (simp add: names_same_car_def serialise_def sample_oid sample_oid_upper)
  have bad: "\<not> exclusive_per_car (bookings (snd (create_booking fleet_booked ?p)))"
    using same' ov by (simp add: bs)
  have str: "exclusive (bookings (snd (create_booking fleet_booked ?p)))"
    by (simp add: bs serialise_def sample_upper_neq)
  from oid fc car bk e0 r bs same ov dov bad str show ?thesis by blast
qed

end
